theory Spec2Isabelle
  imports
    Main
    "HOL-Library.Char_ord"
    "HOL-Library.List_Lexorder"
    "HOL-Library.AList"
    "HOL-Library.Multiset"
    "HOL-Library.Sublist"
begin

section \<open>Python values\<close>

text \<open>
  The value of \<^verbatim>\<open>json.load\<close>: \<^verbatim>\<open>None\<close>, a bool, an unbounded int, a float, a str,
  a list, or a dict with str keys. A float is carried by its Python \<^verbatim>\<open>str()\<close> text
  (\<^verbatim>\<open>repr\<close> of a float determines it); a dict by its items in insertion order, the
  keys distinct. Strings are ASCII text: a \<^typ>\<open>char\<close> at or above 128 is kept as it is,
  with no case and never white space.
\<close>

datatype json =
    JNull
  | JBool bool
  | JInt int
  | JFloat string
  | JStr string
  | JList "json list"
  | JDict "(string \<times> json) list"

text \<open>
  The exceptions the program can raise. A \<^verbatim>\<open>ValueError\<close> carries the message the
  source gives it; the other two come from the interpreter.
\<close>

datatype py_error =
    ValueError string
  | TypeError
  | AttributeError

subsection \<open>Strings\<close>

definition py_isspace :: "char \<Rightarrow> bool" where
  "py_isspace c =
     (let n = (of_char c :: nat) in (9 \<le> n \<and> n \<le> 13) \<or> (28 \<le> n \<and> n \<le> 32))"

definition py_strip :: "string \<Rightarrow> string" where
  "py_strip s = rev (dropWhile py_isspace (rev (dropWhile py_isspace s)))"

definition lower_char :: "char \<Rightarrow> char" where
  "lower_char c =
     (let n = (of_char c :: nat) in if 65 \<le> n \<and> n \<le> 90 then char_of (n + 32) else c)"

definition upper_char :: "char \<Rightarrow> char" where
  "upper_char c =
     (let n = (of_char c :: nat) in if 97 \<le> n \<and> n \<le> 122 then char_of (n - 32) else c)"

definition py_lower :: "string \<Rightarrow> string" where
  "py_lower s = map lower_char s"

definition py_upper :: "string \<Rightarrow> string" where
  "py_upper s = map upper_char s"

text \<open>\<^verbatim>\<open>", ".join(parts)\<close>.\<close>

fun join_comma :: "string list \<Rightarrow> string" where
  "join_comma [] = []"
| "join_comma [p] = p"
| "join_comma (p # ps) = p @ '', '' @ join_comma ps"

subsection \<open>\<^verbatim>\<open>str\<close> and \<^verbatim>\<open>repr\<close>\<close>

definition digit_char :: "nat \<Rightarrow> char" where
  "digit_char d = char_of (48 + d)"

fun str_nat :: "nat \<Rightarrow> string" where
  "str_nat n = (if n < 10 then [digit_char n] else str_nat (n div 10) @ [digit_char (n mod 10)])"

definition str_int :: "int \<Rightarrow> string" where
  "str_int i = (if i < 0 then CHR ''-'' # str_nat (nat (- i)) else str_nat (nat i))"

definition hex_char :: "nat \<Rightarrow> char" where
  "hex_char d = (if d < 10 then char_of (48 + d) else char_of (87 + d))"

text \<open>
  \<^verbatim>\<open>repr\<close> of a str: single quotes, unless the text has a single quote and no double
  quote; the quote and the backslash escaped, tab, newline and carriage return by
  letter, the other control characters in hexadecimal.
\<close>

definition repr_char :: "char \<Rightarrow> char \<Rightarrow> string" where
  "repr_char quote c =
     (let n = (of_char c :: nat) in
      if c = quote \<or> c = CHR 0x5C then [CHR 0x5C, c]
      else if n = 9 then [CHR 0x5C, CHR ''t'']
      else if n = 10 then [CHR 0x5C, CHR ''n'']
      else if n = 13 then [CHR 0x5C, CHR ''r'']
      else if n < 32 \<or> n = 127 then [CHR 0x5C, CHR ''x'', hex_char (n div 16), hex_char (n mod 16)]
      else [c])"

definition repr_str :: "string \<Rightarrow> string" where
  "repr_str s =
     (let quote = (if CHR 0x27 \<in> set s \<and> CHR 0x22 \<notin> set s then CHR 0x22 else CHR 0x27)
      in quote # concat (map (repr_char quote) s) @ [quote])"

fun py_repr :: "json \<Rightarrow> string" where
  "py_repr JNull = ''None''"
| "py_repr (JBool b) = (if b then ''True'' else ''False'')"
| "py_repr (JInt i) = str_int i"
| "py_repr (JFloat r) = r"
| "py_repr (JStr s) = repr_str s"
| "py_repr (JList xs) = ''['' @ join_comma (map py_repr xs) @ '']''"
| "py_repr (JDict d) =
     ''{'' @ join_comma (map (\<lambda>(k, v). repr_str k @ '': '' @ py_repr v) d) @ ''}''"

fun py_str :: "json \<Rightarrow> string" where
  "py_str (JStr s) = s"
| "py_str v = py_repr v"

subsection \<open>Truth values, \<^verbatim>\<open>or\<close>, \<^verbatim>\<open>dict.get\<close>\<close>

fun truthy :: "json \<Rightarrow> bool" where
  "truthy JNull = False"
| "truthy (JBool b) = b"
| "truthy (JInt i) = (i \<noteq> 0)"
| "truthy (JFloat r) = (r \<noteq> ''0.0'' \<and> r \<noteq> ''-0.0'')"
| "truthy (JStr s) = (s \<noteq> [])"
| "truthy (JList xs) = (xs \<noteq> [])"
| "truthy (JDict d) = (d \<noteq> [])"

definition py_or :: "json \<Rightarrow> json \<Rightarrow> json" where
  "py_or a b = (if truthy a then a else b)"

definition get_default :: "(string \<times> json) list \<Rightarrow> string \<Rightarrow> json \<Rightarrow> json" where
  "get_default d k dflt = (case map_of d k of None \<Rightarrow> dflt | Some v \<Rightarrow> v)"

definition get :: "(string \<times> json) list \<Rightarrow> string \<Rightarrow> json" where
  "get d k = get_default d k JNull"

section \<open>Questions\<close>

record question =
  q_id :: string
  q_question :: string
  q_choices :: "string list"
  q_correct_answers :: "int list"
  q_domain :: string
  q_comment :: string

text \<open>The dict that \<^verbatim>\<open>normalize_question\<close> returns, as a Python value.\<close>

definition question_json :: "question \<Rightarrow> json" where
  "question_json q =
     JDict [(''id'', JStr (q_id q)),
            (''question'', JStr (q_question q)),
            (''choices'', JList (map JStr (q_choices q))),
            (''correct_answers'', JList (map JInt (q_correct_answers q))),
            (''domain'', JStr (q_domain q)),
            (''comment'', JStr (q_comment q))]"

subsection \<open>\<^verbatim>\<open>normalize_correct_answers\<close>\<close>

definition letters :: string where
  "letters = ''ABCDEFGHIJKLMNOPQRSTUVWXYZ''"

text \<open>\<^verbatim>\<open>list.index\<close>; \<open>None\<close> is its \<^verbatim>\<open>ValueError\<close>.\<close>

fun index_of :: "'a \<Rightarrow> 'a list \<Rightarrow> nat option" where
  "index_of x [] = None"
| "index_of x (y # ys) = (if x = y then Some 0 else map_option Suc (index_of x ys))"

definition in_range :: "int \<Rightarrow> string list \<Rightarrow> bool" where
  "in_range i choices = (0 \<le> i \<and> i < int (length choices))"

text \<open>The branch "match by exact option text" of the loop body.\<close>

definition match_text :: "string list \<Rightarrow> string \<Rightarrow> int list \<Rightarrow> int list" where
  "match_text choices stripped normalized =
     (case index_of (py_lower stripped) (map py_lower choices) of
        None \<Rightarrow> normalized
      | Some idx \<Rightarrow> normalized @ [int idx])"

text \<open>
  One iteration of the loop: \<open>normalized\<close> after it. A bool is an int in Python
  (\<^verbatim>\<open>isinstance(True, int)\<close>), and is kept here as the int it equals. On a string of
  one character the test \<^verbatim>\<open>stripped.upper() in "AB...Z"\<close> is membership.
\<close>

definition answer_step :: "string list \<Rightarrow> json \<Rightarrow> int list \<Rightarrow> int list" where
  "answer_step choices answer normalized =
     (case answer of
        JInt i \<Rightarrow> if in_range i choices then normalized @ [i] else normalized
      | JBool b \<Rightarrow>
          (let i = (if b then 1 else 0)
           in if in_range i choices then normalized @ [i] else normalized)
      | JStr s \<Rightarrow>
          (let stripped = py_strip s in
           if length stripped = 1 \<and> hd (py_upper stripped) \<in> set letters then
             (let idx = int (of_char (hd (py_upper stripped))) - 65 in
              if in_range idx choices then normalized @ [idx]
              else match_text choices stripped normalized)
           else match_text choices stripped normalized)
      | _ \<Rightarrow> normalized)"

definition normalize_correct_answers :: "json \<Rightarrow> string list \<Rightarrow> py_error + int list" where
  "normalize_correct_answers raw_answers choices =
     (case raw_answers of
        JNull \<Rightarrow> Inr []
      | JFloat r \<Rightarrow> Inl TypeError
      | _ \<Rightarrow>
          (let answers =
                 (case raw_answers of
                    JList xs \<Rightarrow> xs
                  | JDict d \<Rightarrow> map (\<lambda>kv. JStr (fst kv)) d
                  | v \<Rightarrow> [v])
           in Inr (sort (remdups (fold (answer_step choices) answers [])))))"

subsection \<open>\<^verbatim>\<open>normalize_question\<close>\<close>

text \<open>
  A UUID is carried by its 32 hexadecimal digits. \<^verbatim>\<open>uuid.uuid5\<close> is library code: the
  functions below take it as the parameter \<open>uuid5\<close>, from a namespace and a name to
  a UUID. \<^verbatim>\<open>str\<close> of a UUID puts the four dashes.
\<close>

definition NAMESPACE_DNS :: string where
  "NAMESPACE_DNS = ''6ba7b8109dad11d180b400c04fd430c8''"

definition uuid_str :: "string \<Rightarrow> string" where
  "uuid_str h =
     take 8 h @ ''-'' @ take 4 (drop 8 h) @ ''-'' @ take 4 (drop 12 h) @ ''-'' @
     take 4 (drop 16 h) @ ''-'' @ drop 20 h"

definition question_text_of :: "(string \<times> json) list \<Rightarrow> json" where
  "question_text_of d = py_or (py_or (get d ''question'') (get d ''text'')) (get d ''prompt'')"

definition raw_choices_of :: "(string \<times> json) list \<Rightarrow> json" where
  "raw_choices_of d =
     (case py_or (get d ''choices'') (get d ''options'') of
        JDict c \<Rightarrow> JList (map (get c) (sort (map fst c)))
      | v \<Rightarrow> v)"

definition raw_correct_of :: "(string \<times> json) list \<Rightarrow> json" where
  "raw_correct_of d =
     py_or (py_or (py_or (get d ''correct_answers'') (get d ''correct_answer''))
                  (get d ''answer''))
           (get d ''answers'')"

definition domain_of :: "(string \<times> json) list \<Rightarrow> string" where
  "domain_of d =
     (let domain_value = get_default d ''domain'' (JStr ''General'');
          domain = (if domain_value \<noteq> JNull then py_strip (py_str domain_value) else ''General'')
      in if domain = [] then ''General'' else domain)"

definition comment_of :: "(string \<times> json) list \<Rightarrow> string" where
  "comment_of d =
     (let comment_value = py_or (py_or (get d ''comment'') (get d ''explanation'')) (JStr [])
      in if comment_value \<noteq> JNull then py_strip (py_str comment_value) else [])"

definition question_id_of :: "(string \<times> json) list \<Rightarrow> json" where
  "question_id_of d = py_or (get d ''id'') (get d ''uuid'')"

definition normalize_question :: "(string \<Rightarrow> string \<Rightarrow> string) \<Rightarrow> json \<Rightarrow> py_error + question" where
  "normalize_question uuid5 raw_question =
     (case raw_question of
        JDict d \<Rightarrow>
          (let question_text = question_text_of d in
           if \<not> truthy question_text then Inl (ValueError ''Question text is required'')
           else
             (case raw_choices_of d of
                JList raw_choices \<Rightarrow>
                  if length raw_choices < 2
                  then Inl (ValueError ''Choices must be a list with at least two options'')
                  else
                    (let choices = map py_str raw_choices in
                     case normalize_correct_answers (raw_correct_of d) choices of
                       Inl e \<Rightarrow> Inl e
                     | Inr correct_answers \<Rightarrow>
                         if correct_answers = []
                         then Inl (ValueError ''At least one correct answer is required'')
                         else
                           (let question_id = question_id_of d in
                            case question_text of
                              JStr t \<Rightarrow>
                                Inr \<lparr> q_id =
                                        (if truthy question_id then py_str question_id
                                         else uuid_str (uuid5 (uuid5 NAMESPACE_DNS t) ''cissp-question'')),
                                      q_question = py_strip t,
                                      q_choices = choices,
                                      q_correct_answers = correct_answers,
                                      q_domain = domain_of d,
                                      q_comment = comment_of d \<rparr>
                            | _ \<Rightarrow> if truthy question_id then Inl AttributeError else Inl TypeError))
              | _ \<Rightarrow> Inl (ValueError ''Choices must be a list with at least two options'')))
      | _ \<Rightarrow> Inl AttributeError)"

section \<open>The stores\<close>

text \<open>
  A Python dict keeps its keys in insertion order: an association list with distinct
  keys, where storing under a key that is present replaces the value in place and
  storing under a new key appends. A dict comprehension stores the items one by one.
\<close>

definition dict_of :: "('k \<times> 'v) list \<Rightarrow> ('k \<times> 'v) list" where
  "dict_of kvs = fold (\<lambda>kv d. AList.update (fst kv) (snd kv) d) kvs []"

definition contains :: "('k \<times> 'v) list \<Rightarrow> 'k \<Rightarrow> bool" where
  "contains d k = (map_of d k \<noteq> None)"

text \<open>
  \<^verbatim>\<open>{q["id"]: q for q in load_json(QUESTIONS_FILE)}\<close>. The file of questions is the list
  of the questions it holds.
\<close>

definition by_id :: "question list \<Rightarrow> (string \<times> question) list" where
  "by_id stored = dict_of (map (\<lambda>q. (q_id q, q)) stored)"

subsection \<open>\<^verbatim>\<open>import_questions\<close>\<close>

record import_stats =
  imported :: nat
  updated :: nat

definition items_of :: "json \<Rightarrow> json" where
  "items_of raw_data =
     (case raw_data of
        JDict d \<Rightarrow>
          (case py_or (py_or (get d ''questions'') (get d ''data'')) (JList []) of
             JDict m \<Rightarrow> JList (map snd m)
           | items \<Rightarrow> items)
      | items \<Rightarrow> items)"

text \<open>
  The loop over the items. \<^verbatim>\<open>except ValueError: continue\<close> skips the item; any other
  exception leaves the function.
\<close>

fun import_loop ::
  "(string \<Rightarrow> string \<Rightarrow> string) \<Rightarrow> json list \<Rightarrow> (string \<times> question) list \<times> nat \<times> nat \<Rightarrow>
   py_error + ((string \<times> question) list \<times> nat \<times> nat)" where
  "import_loop uuid5 [] st = Inr st"
| "import_loop uuid5 (raw_question # rest) (existing_questions, imp, upd) =
     (case normalize_question uuid5 raw_question of
        Inl (ValueError msg) \<Rightarrow> import_loop uuid5 rest (existing_questions, imp, upd)
      | Inl e \<Rightarrow> Inl e
      | Inr question \<Rightarrow>
          if contains existing_questions (q_id question)
          then import_loop uuid5 rest
                 (AList.update (q_id question) question existing_questions, imp, upd + 1)
          else import_loop uuid5 rest
                 (AList.update (q_id question) question existing_questions, imp + 1, upd))"

text \<open>
  The result, and the file of questions after the call: \<^verbatim>\<open>save_json\<close> is the last
  statement before the return.
\<close>

definition import_questions ::
  "(string \<Rightarrow> string \<Rightarrow> string) \<Rightarrow> question list \<Rightarrow> json \<Rightarrow> (py_error + import_stats) \<times> question list" where
  "import_questions uuid5 stored raw_data =
     (let existing_questions = by_id stored in
      case items_of raw_data of
        JList items \<Rightarrow>
          (case import_loop uuid5 items (existing_questions, 0, 0) of
             Inl e \<Rightarrow> (Inl e, stored)
           | Inr (existing', imp, upd) \<Rightarrow>
               (Inr \<lparr> imported = imp, updated = upd \<rparr>, map snd existing'))
      | _ \<Rightarrow> (Inl (ValueError ''Unsupported format. Expected a list of questions.''), stored))"

subsection \<open>\<^verbatim>\<open>update_wrong_answers\<close>\<close>

record wrong_answer =
  w_question_id :: string
  w_wrong_count :: int
  w_last_attempt :: string
  w_last_answer :: "int list"

definition wrong_lookup_of :: "wrong_answer list \<Rightarrow> (string \<times> wrong_answer) list" where
  "wrong_lookup_of wrong_answers = dict_of (map (\<lambda>item. (w_question_id item, item)) wrong_answers)"

text \<open>
  The file of wrong answers after the call. \<open>now\<close> is \<^verbatim>\<open>datetime.utcnow().isoformat()\<close>.
\<close>

definition update_wrong_answers ::
  "string \<Rightarrow> wrong_answer list \<Rightarrow> string \<Rightarrow> int list \<Rightarrow> bool \<Rightarrow> wrong_answer list" where
  "update_wrong_answers now wrong_answers question_id selected_indices is_correct =
     (let wrong_lookup = wrong_lookup_of wrong_answers in
      if is_correct then
        (if contains wrong_lookup question_id
         then filter (\<lambda>item. w_question_id item \<noteq> question_id) wrong_answers
         else wrong_answers)
      else
        map snd
          (case map_of wrong_lookup question_id of
             Some item \<Rightarrow>
               AList.update question_id
                 (item\<lparr> w_wrong_count := w_wrong_count item + 1,
                        w_last_attempt := now,
                        w_last_answer := selected_indices \<rparr>)
                 wrong_lookup
           | None \<Rightarrow>
               AList.update question_id
                 \<lparr> w_question_id = question_id,
                   w_wrong_count = 1,
                   w_last_attempt = now,
                   w_last_answer = selected_indices \<rparr>
                 wrong_lookup))"

section \<open>Test sessions\<close>

text \<open>
  \<^verbatim>\<open>request.form\<close>: each key with the list of its values (\<^verbatim>\<open>getlist\<close>); \<^verbatim>\<open>get\<close> is the
  first of them.
\<close>

type_synonym form = "string \<Rightarrow> string list"

definition form_get :: "form \<Rightarrow> string \<Rightarrow> string option" where
  "form_get f k = (case f k of [] \<Rightarrow> None | v # _ \<Rightarrow> Some v)"

subsection \<open>\<^verbatim>\<open>int\<close> of a string\<close>

text \<open>
  \<^verbatim>\<open>int(s)\<close> in base 10: white space around, a sign, then digits, where one underscore
  may stand between two digits. The limit on the number of digits is not modelled.
\<close>

definition int_isspace :: "char \<Rightarrow> bool" where
  "int_isspace c = (let n = (of_char c :: nat) in (9 \<le> n \<and> n \<le> 13) \<or> n = 32)"

definition is_digit :: "char \<Rightarrow> bool" where
  "is_digit c = (let n = (of_char c :: nat) in 48 \<le> n \<and> n \<le> 57)"

fun digits_ok :: "string \<Rightarrow> bool" where
  "digits_ok [] = False"
| "digits_ok [c] = is_digit c"
| "digits_ok (c # u # rest) =
     (is_digit c \<and> (if u = CHR ''_'' then digits_ok rest else digits_ok (u # rest)))"

definition digits_value :: "string \<Rightarrow> nat" where
  "digits_value s = foldl (\<lambda>a c. 10 * a + (of_char c - 48)) 0 (filter is_digit s)"

definition py_int :: "string \<Rightarrow> py_error + int" where
  "py_int s =
     (let t = rev (dropWhile int_isspace (rev (dropWhile int_isspace s)));
          negative = (t \<noteq> [] \<and> hd t = CHR ''-'');
          body = (if t \<noteq> [] \<and> (hd t = CHR ''-'' \<or> hd t = CHR ''+'') then tl t else t)
      in if digits_ok body
         then Inr (if negative then - int (digits_value body) else int (digits_value body))
         else Inl (ValueError ''invalid literal for int() with base 10''))"

subsection \<open>\<^verbatim>\<open>random.sample\<close>\<close>

text \<open>
  Modelled from the spec: \<^verbatim>\<open>random.sample\<close> is library code, "a uniformly random sample
  without replacement", in the order drawn. The randomness is the list \<open>draws\<close>: each
  draw picks one of the questions left.
\<close>

fun draw_sample :: "nat list \<Rightarrow> 'a list \<Rightarrow> nat \<Rightarrow> 'a list" where
  "draw_sample draws pool 0 = []"
| "draw_sample draws pool (Suc k) =
     (if pool = [] then []
      else
        (let j = (case draws of [] \<Rightarrow> 0 | r # _ \<Rightarrow> r mod length pool)
         in pool ! j # draw_sample (tl draws) (take j pool @ drop (Suc j) pool) k))"

definition random_sample :: "nat list \<Rightarrow> 'a list \<Rightarrow> int \<Rightarrow> py_error + 'a list" where
  "random_sample draws population k =
     (if 0 \<le> k \<and> k \<le> int (length population)
      then Inr (draw_sample draws population (nat k))
      else Inl (ValueError ''Sample larger than population or is negative''))"

subsection \<open>\<^verbatim>\<open>new_test\<close> and \<^verbatim>\<open>review\<close>\<close>

record test_session =
  s_questions :: "question list"
  s_timestamp :: string
  s_mode :: string

datatype outcome =
    Import_first
  | Nothing_available
  | Started test_session
  | Raised py_error

text \<open>
  \<^verbatim>\<open>int(request.form.get("total_questions", 0))\<close>, with 0 for a \<^verbatim>\<open>ValueError\<close>.
\<close>

definition requested_total :: "form \<Rightarrow> int" where
  "requested_total f =
     (case form_get f ''total_questions'' of
        None \<Rightarrow> 0
      | Some v \<Rightarrow> (case py_int v of Inr n \<Rightarrow> n | Inl e \<Rightarrow> 0))"

text \<open>\<^verbatim>\<open>max(1, min(total_questions or len(pool), len(pool)))\<close>.\<close>

definition effective_total :: "int \<Rightarrow> 'a list \<Rightarrow> int" where
  "effective_total total_questions pool =
     max 1 (min (if total_questions \<noteq> 0 then total_questions else int (length pool))
                (int (length pool)))"

definition start_session :: "nat list \<Rightarrow> string \<Rightarrow> string \<Rightarrow> int \<Rightarrow> question list \<Rightarrow> outcome" where
  "start_session draws now mode total_questions pool =
     (case random_sample draws pool (effective_total total_questions pool) of
        Inl e \<Rightarrow> Raised e
      | Inr selected_questions \<Rightarrow>
          Started \<lparr> s_questions = selected_questions, s_timestamp = now, s_mode = mode \<rparr>)"

text \<open>
  \<^verbatim>\<open>[q for q in questions if not selected_domain or q["domain"] == selected_domain]\<close>.
\<close>

definition filter_domain :: "string option \<Rightarrow> question list \<Rightarrow> question list" where
  "filter_domain selected_domain questions =
     filter (\<lambda>q. selected_domain = None \<or> selected_domain = Some [] \<or>
                  Some (q_domain q) = selected_domain) questions"

text \<open>The POST branch of \<^verbatim>\<open>new_test\<close>.\<close>

definition new_test :: "nat list \<Rightarrow> string \<Rightarrow> form \<Rightarrow> question list \<Rightarrow> outcome" where
  "new_test draws now f questions =
     (if questions = [] then Import_first
      else
        (let total_questions = requested_total f;
             selected_domain = form_get f ''domain'';
             filtered = filter_domain selected_domain questions
         in if filtered = [] then Nothing_available
            else start_session draws now ''standard'' total_questions filtered))"

definition review_questions :: "question list \<Rightarrow> wrong_answer list \<Rightarrow> question list" where
  "review_questions questions wrong_answers =
     (let wrong_lookup = wrong_lookup_of wrong_answers
      in filter (\<lambda>q. contains wrong_lookup (q_id q)) questions)"

text \<open>The POST branch of \<^verbatim>\<open>review\<close>.\<close>

definition review :: "nat list \<Rightarrow> string \<Rightarrow> form \<Rightarrow> question list \<Rightarrow> wrong_answer list \<Rightarrow> outcome" where
  "review draws now f questions wrong_answers =
     (let pool = review_questions questions wrong_answers in
      if pool = [] then Nothing_available
      else start_session draws now ''review'' (requested_total f) pool)"

subsection \<open>\<^verbatim>\<open>submit_test\<close>\<close>






section \<open>Predicates of the properties\<close>

text \<open>The invariant of a canonical question.\<close>

definition canonical :: "question \<Rightarrow> bool" where
  "canonical q =
     (q_correct_answers q \<noteq> [] \<and> sorted_wrt (<) (q_correct_answers q) \<and>
      list_all (\<lambda>i. in_range i (q_choices q)) (q_correct_answers q) \<and>
      2 \<le> length (q_choices q))"

text \<open>The questions of the items that normalize, in the order of the items.\<close>

definition succeeded :: "(string \<Rightarrow> string \<Rightarrow> string) \<Rightarrow> json list \<Rightarrow> question list" where
  "succeeded uuid5 items =
     List.map_filter
       (\<lambda>raw. case normalize_question uuid5 raw of Inr q \<Rightarrow> Some q | Inl e \<Rightarrow> None) items"

text \<open>An item on which \<^verbatim>\<open>normalize_question\<close> raises something else than \<^verbatim>\<open>ValueError\<close>.\<close>

definition crashes :: "(string \<Rightarrow> string \<Rightarrow> string) \<Rightarrow> json \<Rightarrow> bool" where
  "crashes uuid5 raw =
     (case normalize_question uuid5 raw of
        Inl (ValueError msg) \<Rightarrow> False
      | Inl e \<Rightarrow> True
      | Inr q \<Rightarrow> False)"

text \<open>Storing a question under its id in a mapping from ids to questions.\<close>

definition upsert :: "question \<Rightarrow> (string \<rightharpoonup> question) \<Rightarrow> (string \<rightharpoonup> question)" where
  "upsert q m = m(q_id q \<mapsto> q)"






subsection \<open>Example data\<close>

text \<open>A stand-in for the hash, a raw record and the question it normalizes to.\<close>

definition example_uuid5 :: "string \<Rightarrow> string \<Rightarrow> string" where
  "example_uuid5 namespace name = take 32 (name @ namespace)"

definition example_raw :: "string \<Rightarrow> string \<Rightarrow> json" where
  "example_raw ident question_text =
     JDict [(''id'', JStr ident),
            (''question'', JStr question_text),
            (''choices'', JList [JStr ''Confidentiality'', JStr ''Integrity'', JStr ''Availability'']),
            (''answer'', JList [JStr ''b'', JInt 2]),
            (''domain'', JStr ''Security'')]"

definition example_question :: "string \<Rightarrow> string \<Rightarrow> question" where
  "example_question ident question_text =
     \<lparr> q_id = ident, q_question = question_text,
       q_choices = [''Confidentiality'', ''Integrity'', ''Availability''],
       q_correct_answers = [1, 2], q_domain = ''Security'', q_comment = [] \<rparr>"

definition example_form :: "string \<Rightarrow> string \<Rightarrow> form" where
  "example_form count_text domain_text =
     (\<lambda>k. if k = ''total_questions'' then [count_text]
          else if k = ''domain'' then [domain_text] else [])"

section \<open>Correct-answer normalization\<close>

lemma index_of_Some_less: "index_of x xs = Some i \<Longrightarrow> i < length xs"
  by (induction xs arbitrary: i) (auto split: if_splits)

lemma index_of_Some_nth: "index_of x xs = Some i \<Longrightarrow> xs ! i = x"
  by (induction xs arbitrary: i) (auto split: if_splits)

lemma index_of_None: "index_of x xs = None \<longleftrightarrow> x \<notin> set xs"
  by (induction xs) auto

text \<open>
  C10. An answer that is one letter (after stripping) whose index, letter minus \<open>A\<close>,
  is not an index of \<open>choices\<close> is not dropped: it goes on to the match against the
  choice texts, without regard to case. When a choice has that letter as its text,
  the answer resolves to the index of the first such choice.
\<close>

theorem out_of_range_letter_matches_text:
  assumes "py_strip s = [c]"
    and "upper_char c \<in> set letters"
    and "\<not> in_range (int (of_char (upper_char c)) - 65) choices"
    and "index_of (py_lower [c]) (map py_lower choices) = Some i"
  shows "normalize_correct_answers (JStr s) choices = Inr [int i]
         \<and> i < length choices \<and> py_lower (choices ! i) = py_lower [c]"
proof -
  from assms(4) have "i < length choices"
    using index_of_Some_less by fastforce
  moreover from assms(4) this have "py_lower (choices ! i) = py_lower [c]"
    using index_of_Some_nth by fastforce
  moreover have "answer_step choices (JStr s) [] = [int i]"
    using assms by (simp add: answer_step_def match_text_def py_upper_def)
  then have "normalize_correct_answers (JStr s) choices = Inr [int i]"
    by (simp add: normalize_correct_answers_def)
  ultimately show ?thesis by simp
qed

theorem out_of_range_letter_matches_text_witness:
  "py_strip '' z '' = ''z'' \<and> upper_char CHR ''z'' \<in> set letters
   \<and> \<not> in_range (int (of_char (upper_char CHR ''z'')) - 65) [''x'', ''Z'']
   \<and> index_of (py_lower ''z'') (map py_lower [''x'', ''Z'']) = Some 1
   \<and> normalize_correct_answers (JStr '' z '') [''x'', ''Z''] = Inr [1]"
proof -
  have a: "py_strip '' z '' = [CHR ''z'']" by code_simp
  have b: "upper_char CHR ''z'' \<in> set letters" by code_simp
  have c: "\<not> in_range (int (of_char (upper_char CHR ''z'')) - 65) [''x'', ''Z'']" by code_simp
  have d: "index_of (py_lower [CHR ''z'']) (map py_lower [''x'', ''Z'']) = Some 1" by code_simp
  from out_of_range_letter_matches_text [OF a b c d] a b c d show ?thesis by simp
qed

section \<open>The canonical question\<close>

lemma answer_step_in_range:
  assumes "list_all (\<lambda>i. in_range i choices) normalized"
  shows "list_all (\<lambda>i. in_range i choices) (answer_step choices answer normalized)"
proof (cases answer)
  case (JStr s)
  have m: "list_all (\<lambda>i. in_range i choices) (match_text choices t normalized)" for t
    using assms
    by (auto simp: match_text_def in_range_def split: option.splits dest: index_of_Some_less)
  show ?thesis using assms m
    by (simp add: JStr answer_step_def Let_def)
qed (use assms in \<open>auto simp: answer_step_def Let_def\<close>)

lemma fold_answer_step_in_range:
  "list_all (\<lambda>i. in_range i choices) normalized \<Longrightarrow>
   list_all (\<lambda>i. in_range i choices) (fold (answer_step choices) answers normalized)"
  by (induction answers arbitrary: normalized) (auto intro: answer_step_in_range)

lemma sorted_wrt_less_sort_remdups: "sorted_wrt (<) (sort (remdups (xs :: int list)))"
  by (simp add: strict_sorted_iff)

lemma normalize_correct_answers_canonical:
  assumes "normalize_correct_answers raw choices = Inr cs"
  shows "sorted_wrt (<) cs \<and> list_all (\<lambda>i. in_range i choices) cs"
proof -
  define answers where
    "answers = (case raw of JList xs \<Rightarrow> xs | JDict d \<Rightarrow> map (\<lambda>kv. JStr (fst kv)) d | v \<Rightarrow> [v])"
  have "cs = [] \<or> cs = sort (remdups (fold (answer_step choices) answers []))"
    using assms unfolding answers_def
    by (cases raw) (simp_all add: normalize_correct_answers_def)
  moreover have "list_all (\<lambda>i. in_range i choices) (sort (remdups (fold (answer_step choices) answers [])))"
    using fold_answer_step_in_range [of choices "[]" answers] by (simp add: list_all_iff)
  ultimately show ?thesis
    using sorted_wrt_less_sort_remdups by auto
qed

lemma normalize_question_fields:
  assumes "normalize_question uuid5 raw = Inr q"
  shows "\<exists>d cs t. raw = JDict d \<and> raw_choices_of d = JList cs \<and> 2 \<le> length cs
           \<and> q_choices q = map py_str cs
           \<and> normalize_correct_answers (raw_correct_of d) (map py_str cs) = Inr (q_correct_answers q)
           \<and> q_correct_answers q \<noteq> []
           \<and> question_text_of d = JStr t \<and> t \<noteq> [] \<and> q_question q = py_strip t
           \<and> q_domain q = domain_of d \<and> q_comment q = comment_of d
           \<and> q_id q = (if truthy (question_id_of d) then py_str (question_id_of d)
                        else uuid_str (uuid5 (uuid5 NAMESPACE_DNS t) ''cissp-question''))"
  using assms
  by (auto simp: normalize_question_def Let_def split: json.splits if_splits sum.splits)

lemma normalize_question_canonical:
  assumes "normalize_question uuid5 raw = Inr q"
  shows "canonical q"
proof -
  from normalize_question_fields [OF assms] obtain d cs where
    "2 \<le> length cs" "q_choices q = map py_str cs"
    "normalize_correct_answers (raw_correct_of d) (map py_str cs) = Inr (q_correct_answers q)"
    "q_correct_answers q \<noteq> []"
    by blast
  then show ?thesis
    using normalize_correct_answers_canonical [of "raw_correct_of d" "map py_str cs" "q_correct_answers q"]
    by (simp add: canonical_def)
qed

section \<open>Dicts\<close>

lemma update_set_subset: "set (AList.update k v al) \<subseteq> insert (k, v) (set al)"
  by (induction al) auto

lemma update_fresh: "k \<notin> fst ` set al \<Longrightarrow> AList.update k v al = al @ [(k, v)]"
  by (induction al) auto

lemma contains_iff: "contains d k \<longleftrightarrow> k \<in> fst ` set d"
  by (simp add: contains_def map_of_eq_None_iff)

lemma fold_update_distinct:
  "distinct (map fst d) \<Longrightarrow>
   distinct (map fst (fold (\<lambda>kv d. AList.update (fst kv) (snd kv) d) kvs d))"
  by (induction kvs arbitrary: d) (simp_all add: distinct_update)

lemma fold_update_keys:
  "fst ` set (fold (\<lambda>kv d. AList.update (fst kv) (snd kv) d) kvs d) = fst ` set d \<union> fst ` set kvs"
  by (induction kvs arbitrary: d) (auto simp: dom_update)

lemma fold_update_entries:
  "set (fold (\<lambda>kv d. AList.update (fst kv) (snd kv) d) kvs d) \<subseteq> set d \<union> set kvs"
proof (induction kvs arbitrary: d)
  case Nil
  then show ?case by simp
next
  case (Cons kv kvs)
  have "set (AList.update (fst kv) (snd kv) d) \<subseteq> insert kv (set d)"
    using update_set_subset [of "fst kv" "snd kv" d] by simp
  with Cons.IH [of "AList.update (fst kv) (snd kv) d"] show ?case by auto
qed

lemma fold_update_map_of:
  "map_of (fold (\<lambda>kv d. AList.update (fst kv) (snd kv) d) kvs d) = map_of d ++ map_of (rev kvs)"
proof (induction kvs arbitrary: d)
  case Nil
  then show ?case by simp
next
  case (Cons kv kvs)
  have "map_of (AList.update (fst kv) (snd kv) d) ++ map_of (rev kvs)
        = map_of d ++ map_of (rev (kv # kvs))"
  proof
    fix x
    show "(map_of (AList.update (fst kv) (snd kv) d) ++ map_of (rev kvs)) x
          = (map_of d ++ map_of (rev (kv # kvs))) x"
      by (cases kv) (auto simp: update_conv' map_add_def split: option.splits)
  qed
  with Cons.IH [of "AList.update (fst kv) (snd kv) d"] show ?case by simp
qed

lemma fold_update_fresh:
  "distinct (map fst (d @ kvs)) \<Longrightarrow>
   fold (\<lambda>kv d. AList.update (fst kv) (snd kv) d) kvs d = d @ kvs"
proof (induction kvs arbitrary: d)
  case Nil
  then show ?case by simp
next
  case (Cons kv kvs)
  then have "fst kv \<notin> fst ` set d" by auto
  then have "AList.update (fst kv) (snd kv) d = d @ [kv]"
    by (simp add: update_fresh)
  moreover from Cons.prems have "distinct (map fst ((d @ [kv]) @ kvs))" by simp
  ultimately show ?case using Cons.IH [of "d @ [kv]"] by simp
qed

lemma dict_of_keys: "fst ` set (dict_of kvs) = fst ` set kvs"
  by (simp add: dict_of_def fold_update_keys)

lemma dict_of_distinct: "distinct (map fst (dict_of kvs))"
  by (simp add: dict_of_def fold_update_distinct)

lemma dict_of_entries: "set (dict_of kvs) \<subseteq> set kvs"
  using fold_update_entries [of kvs "[]"] by (simp add: dict_of_def)

lemma dict_of_map_of: "map_of (dict_of kvs) = map_of (rev kvs)"
  by (simp add: dict_of_def fold_update_map_of)

lemma dict_of_distinct_id: "distinct (map fst kvs) \<Longrightarrow> dict_of kvs = kvs"
  using fold_update_fresh [of "[]" kvs] by (simp add: dict_of_def)

lemma keyed_values:
  "\<forall>kv \<in> set d. fst kv = f (snd kv) \<Longrightarrow> map (\<lambda>v. (f v, v)) (map snd d) = d"
  by (induction d) auto


lemma by_id_entries: "kv \<in> set (by_id stored) \<Longrightarrow> fst kv = q_id (snd kv) \<and> snd kv \<in> set stored"
  using dict_of_entries [of "map (\<lambda>q. (q_id q, q)) stored"] by (auto simp: by_id_def)

lemma by_id_of_values:
  assumes "distinct (map fst d)" and "\<forall>kv \<in> set d. fst kv = q_id (snd kv)"
  shows "by_id (map snd d) = d"
proof -
  have "map (\<lambda>q. (q_id q, q)) (map snd d) = d"
    using assms(2) by (rule keyed_values)
  then show ?thesis
    using assms(1) by (simp only: by_id_def dict_of_distinct_id)
qed

section \<open>The import loop\<close>

lemma succeeded_Nil: "succeeded u [] = []"
  by (simp add: succeeded_def map_filter_simps)

lemma succeeded_Cons:
  "succeeded u (raw # items) =
     (case normalize_question u raw of Inr q \<Rightarrow> q # succeeded u items | Inl e \<Rightarrow> succeeded u items)"
  by (simp add: succeeded_def map_filter_simps split: sum.splits)

lemma import_loop_skip:
  "normalize_question u raw = Inl (ValueError msg) \<Longrightarrow>
   import_loop u (raw # rest) st = import_loop u rest st"
  by (cases st) simp

lemma import_loop_raise:
  "normalize_question u raw = Inl e \<Longrightarrow> crashes u raw \<Longrightarrow> import_loop u (raw # rest) st = Inl e"
  by (cases st; cases e) (simp_all add: crashes_def)

lemma import_loop_upsert:
  "normalize_question u raw = Inr q \<Longrightarrow>
   import_loop u (raw # rest) (ex, i, n) =
     import_loop u rest
       (AList.update (q_id q) q ex,
        i + of_bool (\<not> contains ex (q_id q)), n + of_bool (contains ex (q_id q)))"
  by simp

lemma Inl_cases:
  assumes "normalize_question u raw = Inl e"
  obtains msg where "normalize_question u raw = Inl (ValueError msg)" | "crashes u raw"
  using assms by (cases e) (auto simp: crashes_def)


lemma import_loop_crash:
  "import_loop u items (ex, i, n) = Inl e \<Longrightarrow> \<exists>raw \<in> set items. crashes u raw"
proof (induction items arbitrary: ex i n)
  case Nil
  then show ?case by simp
next
  case (Cons raw items)
  show ?case
  proof (cases "normalize_question u raw")
    case (Inl e')
    then show ?thesis
    proof (cases rule: Inl_cases)
      case (1 msg)
      with Cons.prems have "import_loop u items (ex, i, n) = Inl e"
        by (simp only: import_loop_skip)
      from Cons.IH [OF this] show ?thesis by simp
    next
      case 2
      then show ?thesis by simp
    qed
  next
    case (Inr q)
    from Cons.prems have "import_loop u items
       (AList.update (q_id q) q ex,
        i + of_bool (\<not> contains ex (q_id q)), n + of_bool (contains ex (q_id q))) = Inl e"
      unfolding import_loop_upsert [OF Inr] .
    from Cons.IH [OF this] show ?thesis by simp
  qed
qed

lemma fold_upsert_Cons: "fold upsert (q # qs) m = fold upsert qs (upsert q m)"
  by simp


lemma import_loop_Inr_cases:
  assumes "import_loop u (raw # items) (ex, i, n) = Inr r"
  obtains msg where "normalize_question u raw = Inl (ValueError msg)"
      and "import_loop u items (ex, i, n) = Inr r"
    | q where "normalize_question u raw = Inr q"
      and "import_loop u items
             (AList.update (q_id q) q ex,
              i + of_bool (\<not> contains ex (q_id q)), n + of_bool (contains ex (q_id q))) = Inr r"
proof (cases "normalize_question u raw")
  case (Inl e)
  then show ?thesis
  proof (cases rule: Inl_cases)
    case (1 msg)
    with assms that(1) show ?thesis by (simp only: import_loop_skip)
  next
    case 2
    with assms Inl show ?thesis by (simp only: import_loop_raise) simp
  qed
next
  case (Inr q)
  with assms that(2) show ?thesis by (simp only: import_loop_upsert)
qed



lemma import_loop_distinct:
  "import_loop u items (ex, i, n) = Inr (ex', i', n') \<Longrightarrow> distinct (map fst ex) \<Longrightarrow>
   distinct (map fst ex')"
proof (induction items arbitrary: ex i n)
  case Nil
  then show ?case by simp
next
  case (Cons raw items)
  from Cons.prems(1) show ?case
  proof (cases rule: import_loop_Inr_cases)
    case (1 msg)
    with Cons.IH [OF 1(2)] Cons.prems(2) show ?thesis by simp
  next
    case (2 q)
    with Cons.IH [OF 2(2)] Cons.prems(2) show ?thesis
      by (simp add: distinct_update)
  qed
qed

lemma import_loop_entries:
  "import_loop u items (ex, i, n) = Inr (ex', i', n') \<Longrightarrow>
   set ex' \<subseteq> set ex \<union> (\<lambda>q. (q_id q, q)) ` set (succeeded u items)"
proof (induction items arbitrary: ex i n)
  case Nil
  then show ?case by simp
next
  case (Cons raw items)
  from Cons.prems show ?case
  proof (cases rule: import_loop_Inr_cases)
    case (1 msg)
    with Cons.IH [OF 1(2)] show ?thesis by (simp add: succeeded_Cons)
  next
    case (2 q)
    with Cons.IH [OF 2(2)] update_set_subset [of "q_id q" q ex] show ?thesis
      by (auto simp: succeeded_Cons)
  qed
qed




lemma succeeded_set:
  "q \<in> set (succeeded u items) \<longleftrightarrow> (\<exists>raw \<in> set items. normalize_question u raw = Inr q)"
  by (induction items) (auto simp: succeeded_Nil succeeded_Cons split: sum.splits)

lemma import_questions_Inr:
  assumes "import_questions u stored raw_data = (Inr stats, stored')"
  obtains items ex' where "items_of raw_data = JList items"
    and "import_loop u items (by_id stored, 0, 0) = Inr (ex', imported stats, updated stats)"
    and "stored' = map snd ex'"
  using assms
  by (auto simp: import_questions_def Let_def split: json.splits sum.splits prod.splits)

lemma import_loop_keyed:
  assumes "import_loop u items (by_id stored, i, n) = Inr (ex', i', n')"
    and "kv \<in> set ex'"
  shows "fst kv = q_id (snd kv) \<and> (snd kv \<in> set stored \<or> snd kv \<in> set (succeeded u items))"
  using import_loop_entries [OF assms(1)] assms(2) by_id_entries [of kv stored] by auto

lemma import_loop_store:
  assumes "import_loop u items (by_id stored, i, n) = Inr (ex', i', n')"
  shows "distinct (map q_id (map snd ex'))" and "by_id (map snd ex') = ex'"
proof -
  have d: "distinct (map fst ex')"
    using import_loop_distinct [OF assms] by (simp add: by_id_def dict_of_distinct)
  have k: "\<forall>kv \<in> set ex'. fst kv = q_id (snd kv)"
    using import_loop_keyed [OF assms] by blast
  then have "map q_id (map snd ex') = map fst ex'"
    by (induction ex') auto
  with d show "distinct (map q_id (map snd ex'))" by (simp only:)
  from d k show "by_id (map snd ex') = ex'" by (rule by_id_of_values)
qed

text \<open>
  C6. Every question that \<^verbatim>\<open>normalize_question\<close> returns has correct answers that are
  not empty, strictly ascending (so sorted and without duplicates) and each an index
  of the choices, and at least two choices. After an import that returns, the ids of
  the stored questions are distinct, and every stored question is one that was stored
  before or has the invariant; so a store of canonical questions stays one.
\<close>

theorem canonical_question_invariant:
  "(normalize_question uuid5 raw = Inr q \<longrightarrow> canonical q)
   \<and> (import_questions uuid5 stored raw_data = (Inr stats, stored') \<longrightarrow>
        distinct (map q_id stored')
        \<and> list_all (\<lambda>q. q \<in> set stored \<or> canonical q) stored'
        \<and> (list_all canonical stored \<longrightarrow> list_all canonical stored'))"
proof (intro conjI impI)
  assume "normalize_question uuid5 raw = Inr q"
  then show "canonical q" by (rule normalize_question_canonical)
next
  assume a: "import_questions uuid5 stored raw_data = (Inr stats, stored')"
  then obtain items ex' where
    loop: "import_loop uuid5 items (by_id stored, 0, 0) = Inr (ex', imported stats, updated stats)"
    and st: "stored' = map snd ex'"
    by (rule import_questions_Inr)
  show "distinct (map q_id stored')"
    unfolding st by (rule import_loop_store(1) [OF loop])
  have each: "q \<in> set stored \<or> canonical q" if "q \<in> set stored'" for q
  proof -
    from that obtain kv where "kv \<in> set ex'" "q = snd kv" unfolding st by auto
    with import_loop_keyed [OF loop] have "q \<in> set stored \<or> q \<in> set (succeeded uuid5 items)"
      by blast
    then show ?thesis
      using normalize_question_canonical by (auto simp: succeeded_set)
  qed
  then show "list_all (\<lambda>q. q \<in> set stored \<or> canonical q) stored'"
    by (simp add: list_all_iff)
  show "list_all canonical stored'" if "list_all canonical stored"
    using that each by (auto simp: list_all_iff)
qed


theorem canonical_question_invariant_witness:
  "normalize_question example_uuid5 (example_raw ''q1'' ''Which?'') = Inr (example_question ''q1'' ''Which?'')
   \<and> canonical (example_question ''q1'' ''Which?'')
   \<and> import_questions example_uuid5 [example_question ''q0'' ''What?'']
        (JList [example_raw ''q1'' ''Which?''])
       = (Inr \<lparr> imported = 1, updated = 0 \<rparr>,
          [example_question ''q0'' ''What?'', example_question ''q1'' ''Which?''])
   \<and> distinct (map q_id [example_question ''q0'' ''What?'', example_question ''q1'' ''Which?''])
   \<and> list_all canonical [example_question ''q0'' ''What?'', example_question ''q1'' ''Which?'']"
proof -
  have a: "normalize_question example_uuid5 (example_raw ''q1'' ''Which?'')
           = Inr (example_question ''q1'' ''Which?'')"
    by code_simp
  have b: "import_questions example_uuid5 [example_question ''q0'' ''What?'']
             (JList [example_raw ''q1'' ''Which?''])
           = (Inr \<lparr> imported = 1, updated = 0 \<rparr>,
              [example_question ''q0'' ''What?'', example_question ''q1'' ''Which?''])"
    by code_simp
  have c: "list_all canonical [example_question ''q0'' ''What?'']"
    by code_simp
  from canonical_question_invariant
         [of example_uuid5 "example_raw ''q1'' ''Which?''" "example_question ''q1'' ''Which?''"
             "[example_question ''q0'' ''What?'']" "JList [example_raw ''q1'' ''Which?'']"
             "\<lparr> imported = 1, updated = 0 \<rparr>"
             "[example_question ''q0'' ''What?'', example_question ''q1'' ''Which?'']"]
    a b c
  show ?thesis by simp
qed

section \<open>Import counts\<close>


lemma card_ids_le: "card (q_id ` set qs - K) \<le> length qs"
proof -
  have "card (q_id ` set qs - K) \<le> card (q_id ` set qs)"
    by (intro card_mono) auto
  also have "\<dots> \<le> card (set qs)" by (intro card_image_le) simp
  also have "\<dots> \<le> length qs" by (rule card_length)
  finally show ?thesis .
qed





section \<open>Format errors\<close>








section \<open>The id of a question\<close>

text \<open>
  C7, amended. When \<^verbatim>\<open>normalize_question\<close> returns: a truthy \<^verbatim>\<open>id\<close> gives the id as its
  string form; otherwise a truthy \<^verbatim>\<open>uuid\<close> does; and when neither is truthy (absent,
  \<^verbatim>\<open>None\<close>, 0, false, an empty string, list or dict) the id is derived from the question
  text alone, so two such records with the same question text get the same id,
  whatever their other fields.
\<close>

theorem id_derivation:
  assumes "normalize_question uuid5 (JDict d) = Inr q"
  shows "(truthy (get d ''id'') \<longrightarrow> q_id q = py_str (get d ''id''))
       \<and> (\<not> truthy (get d ''id'') \<and> truthy (get d ''uuid'') \<longrightarrow> q_id q = py_str (get d ''uuid''))
       \<and> (\<not> truthy (get d ''id'') \<and> \<not> truthy (get d ''uuid'') \<longrightarrow>
            (\<exists>t. question_text_of d = JStr t
                 \<and> q_id q = uuid_str (uuid5 (uuid5 NAMESPACE_DNS t) ''cissp-question'')))
       \<and> (\<not> truthy (get d ''id'') \<and> \<not> truthy (get d ''uuid'')
            \<and> \<not> truthy (get d' ''id'') \<and> \<not> truthy (get d' ''uuid'')
            \<and> question_text_of d' = question_text_of d
            \<and> normalize_question uuid5 (JDict d') = Inr q' \<longrightarrow> q_id q' = q_id q)"
proof -
  from normalize_question_fields [OF assms] obtain t where
    t: "question_text_of d = JStr t"
    and i: "q_id q = (if truthy (question_id_of d) then py_str (question_id_of d)
                      else uuid_str (uuid5 (uuid5 NAMESPACE_DNS t) ''cissp-question''))"
    by auto
  have "q_id q' = q_id q"
    if "\<not> truthy (get d ''id'')" "\<not> truthy (get d ''uuid'')"
       "\<not> truthy (get d' ''id'')" "\<not> truthy (get d' ''uuid'')"
       "question_text_of d' = question_text_of d"
       "normalize_question uuid5 (JDict d') = Inr q'"
  proof -
    from normalize_question_fields [OF that(6)] obtain t' where
      "question_text_of d' = JStr t'"
      "q_id q' = (if truthy (question_id_of d') then py_str (question_id_of d')
                  else uuid_str (uuid5 (uuid5 NAMESPACE_DNS t') ''cissp-question''))"
      by auto
    with t i that show ?thesis
      by (simp add: question_id_of_def py_or_def)
  qed
  with t i show ?thesis
    by (auto simp: question_id_of_def py_or_def)
qed


theorem id_derivation_witness:
  "normalize_question example_uuid5
     (JDict [(''question'', JStr ''Which?''), (''choices'', JList [JStr ''a'', JStr ''b'']),
             (''answer'', JStr ''A'')])
     = Inr \<lparr> q_id = ''cissp-qu-esti-onWh-ich?-6ba7b8109dad'', q_question = ''Which?'',
             q_choices = [''a'', ''b''], q_correct_answers = [0], q_domain = ''General'',
             q_comment = [] \<rparr>
   \<and> normalize_question example_uuid5
       (JDict [(''text'', JStr ''Which?''), (''choices'', JList [JStr ''c'', JStr ''d'', JStr ''e'']),
               (''answer'', JStr ''e''), (''domain'', JInt 3), (''explanation'', JStr '' because '')])
     = Inr \<lparr> q_id = ''cissp-qu-esti-onWh-ich?-6ba7b8109dad'', q_question = ''Which?'',
             q_choices = [''c'', ''d'', ''e''], q_correct_answers = [2], q_domain = ''3'',
             q_comment = ''because'' \<rparr>
   \<and> q_id \<lparr> q_id = ''cissp-qu-esti-onWh-ich?-6ba7b8109dad'', q_question = ''Which?'',
             q_choices = [''c'', ''d'', ''e''], q_correct_answers = [2], q_domain = ''3'',
             q_comment = ''because'' \<rparr>
     = q_id \<lparr> q_id = ''cissp-qu-esti-onWh-ich?-6ba7b8109dad'', q_question = ''Which?'',
             q_choices = [''a'', ''b''], q_correct_answers = [0], q_domain = ''General'',
             q_comment = [] \<rparr>"
proof -
  let ?d = "[(''question'', JStr ''Which?''), (''choices'', JList [JStr ''a'', JStr ''b'']),
             (''answer'', JStr ''A'')]"
  let ?d' = "[(''text'', JStr ''Which?''), (''choices'', JList [JStr ''c'', JStr ''d'', JStr ''e'']),
              (''answer'', JStr ''e''), (''domain'', JInt 3), (''explanation'', JStr '' because '')]"
  let ?q = "\<lparr> q_id = ''cissp-qu-esti-onWh-ich?-6ba7b8109dad'', q_question = ''Which?'',
             q_choices = [''a'', ''b''], q_correct_answers = [0], q_domain = ''General'',
             q_comment = [] \<rparr>"
  let ?q' = "\<lparr> q_id = ''cissp-qu-esti-onWh-ich?-6ba7b8109dad'', q_question = ''Which?'',
             q_choices = [''c'', ''d'', ''e''], q_correct_answers = [2], q_domain = ''3'',
             q_comment = ''because'' \<rparr>"
  have a: "normalize_question example_uuid5 (JDict ?d) = Inr ?q" by code_simp
  have b: "normalize_question example_uuid5 (JDict ?d') = Inr ?q'" by code_simp
  have c: "\<not> truthy (get ?d ''id'') \<and> \<not> truthy (get ?d ''uuid'')
           \<and> \<not> truthy (get ?d' ''id'') \<and> \<not> truthy (get ?d' ''uuid'')
           \<and> question_text_of ?d' = question_text_of ?d"
    by code_simp
  from id_derivation [OF a, of ?d' ?q'] b c have "q_id ?q' = q_id ?q" by blast
  with a b show ?thesis by blast
qed

text \<open>
  The claim as stated fails: a record that supplies the id 0 does not get the id
  \<open>''0''\<close>, but a derived one.
\<close>

theorem id_derivation_counterexample:
  "get [(''id'', JInt 0), (''question'', JStr ''Which?''),
        (''choices'', JList [JStr ''a'', JStr ''b'']), (''answer'', JStr ''A'')] ''id'' = JInt 0
   \<and> py_str (JInt 0) = ''0''
   \<and> normalize_question example_uuid5
       (JDict [(''id'', JInt 0), (''question'', JStr ''Which?''),
               (''choices'', JList [JStr ''a'', JStr ''b'']), (''answer'', JStr ''A'')])
     = Inr \<lparr> q_id = ''cissp-qu-esti-onWh-ich?-6ba7b8109dad'', q_question = ''Which?'',
             q_choices = [''a'', ''b''], q_correct_answers = [0], q_domain = ''General'',
             q_comment = [] \<rparr>"
  by code_simp

section \<open>Normalizing twice\<close>

text \<open>
  C4. The property fails on the code for a question text of white space only: the
  test for a missing text comes before the strip, so the record is accepted with an
  empty text, and normalizing the result raises "Question text is required".
\<close>

theorem blank_text_not_idempotent:
  "normalize_question example_uuid5
     (JDict [(''id'', JStr ''q7''), (''question'', JStr '' ''),
             (''choices'', JList [JStr ''a'', JStr ''b'']), (''answer'', JStr ''A'')])
     = Inr \<lparr> q_id = ''q7'', q_question = [], q_choices = [''a'', ''b''],
             q_correct_answers = [0], q_domain = ''General'', q_comment = [] \<rparr>
   \<and> normalize_question example_uuid5
       (question_json \<lparr> q_id = ''q7'', q_question = [], q_choices = [''a'', ''b''],
                        q_correct_answers = [0], q_domain = ''General'', q_comment = [] \<rparr>)
     = Inl (ValueError ''Question text is required'')"
  by code_simp

section \<open>The size of a session\<close>

lemma mset_remove_nth:
  "j < length pool \<Longrightarrow> mset pool = add_mset (pool ! j) (mset (take j pool @ drop (Suc j) pool))"
proof -
  assume "j < length pool"
  then have "pool = take j pool @ pool ! j # drop (Suc j) pool"
    by (rule id_take_nth_drop)
  then have "mset pool = mset (take j pool @ pool ! j # drop (Suc j) pool)" by simp
  then show ?thesis by simp
qed

lemma draw_sample_length:
  "k \<le> length pool \<Longrightarrow> length (draw_sample draws pool k) = k"
proof (induction k arbitrary: draws pool)
  case 0
  then show ?case by simp
next
  case (Suc k)
  then have ne: "pool \<noteq> []" by auto
  define j where "j = (case draws of [] \<Rightarrow> 0 | r # _ \<Rightarrow> r mod length pool)"
  have j: "j < length pool" using ne by (auto simp: j_def split: list.splits)
  have "length (take j pool @ drop (Suc j) pool) = length pool - 1"
    using j by simp
  with Suc.prems have "k \<le> length (take j pool @ drop (Suc j) pool)" by simp
  from Suc.IH [OF this] show ?case
    using ne by (simp add: j_def Let_def)
qed

lemma draw_sample_mset:
  "mset (draw_sample draws pool k) \<subseteq># mset pool"
proof (induction k arbitrary: draws pool)
  case 0
  then show ?case by simp
next
  case (Suc k)
  show ?case
  proof (cases "pool = []")
    case True
    then show ?thesis by simp
  next
    case False
    define j where "j = (case draws of [] \<Rightarrow> 0 | r # _ \<Rightarrow> r mod length pool)"
    have j: "j < length pool" using False by (auto simp: j_def split: list.splits)
    have "mset (draw_sample (tl draws) (take j pool @ drop (Suc j) pool) k)
          \<subseteq># mset (take j pool @ drop (Suc j) pool)"
      by (rule Suc.IH)
    then have "add_mset (pool ! j) (mset (draw_sample (tl draws) (take j pool @ drop (Suc j) pool) k))
          \<subseteq># mset pool"
      using mset_remove_nth [OF j] by simp
    then show ?thesis
      using False by (simp add: j_def Let_def)
  qed
qed

lemma draw_sample_all:
  "mset (draw_sample draws pool (length pool)) = mset pool"
proof -
  let ?sel = "draw_sample draws pool (length pool)"
  have size: "size (mset ?sel) = size (mset pool)"
    by (simp add: draw_sample_length)
  have sub: "mset ?sel \<subseteq># mset pool" by (rule draw_sample_mset)
  show ?thesis
  proof (rule ccontr)
    assume "mset ?sel \<noteq> mset pool"
    with sub have "mset ?sel \<subset># mset pool" by (simp add: subset_mset.less_le)
    then have "size (mset ?sel) < size (mset pool)" by (rule mset_subset_size)
    with size show False by simp
  qed
qed

lemma start_session_result:
  assumes "pool \<noteq> []"
  shows "start_session draws now mode total_questions pool
         = Started \<lparr> s_questions = draw_sample draws pool (nat (effective_total total_questions pool)),
                     s_timestamp = now, s_mode = mode \<rparr>"
    and "1 \<le> effective_total total_questions pool"
    and "effective_total total_questions pool \<le> int (length pool)"
proof -
  from assms have "1 \<le> int (length pool)" by (cases pool) simp_all
  then show b: "1 \<le> effective_total total_questions pool"
    and c: "effective_total total_questions pool \<le> int (length pool)"
    by (simp_all add: effective_total_def)
  then show "start_session draws now mode total_questions pool
         = Started \<lparr> s_questions = draw_sample draws pool (nat (effective_total total_questions pool)),
                     s_timestamp = now, s_mode = mode \<rparr>"
    by (simp add: start_session_def random_sample_def)
qed

text \<open>
  C1, amended. For a filtered pool that is not empty, \<^verbatim>\<open>new_test\<close> starts a session whose
  questions are drawn from the pool without replacement, and their number is
  \<open>max 1 (min (requested or len pool) (len pool))\<close>. A requested count above the size
  of the pool, and a requested count of 0 (also a missing or non-numeric one, which
  is read as 0), give the whole pool; a negative requested count gives one question.
\<close>

theorem session_size_clamped:
  assumes "filter_domain (form_get f ''domain'') questions = pool" and "pool \<noteq> []"
  shows "\<exists>selected.
           new_test draws now f questions
             = Started \<lparr> s_questions = selected, s_timestamp = now, s_mode = ''standard'' \<rparr>
         \<and> int (length selected) = max 1 (min (if requested_total f \<noteq> 0 then requested_total f
                                                  else int (length pool)) (int (length pool)))
         \<and> mset selected \<subseteq># mset pool
         \<and> (int (length pool) < requested_total f \<longrightarrow> mset selected = mset pool)
         \<and> (requested_total f = 0 \<longrightarrow> mset selected = mset pool)
         \<and> (requested_total f < 0 \<longrightarrow> length selected = 1)
         \<and> (form_get f ''total_questions'' = None \<longrightarrow> requested_total f = 0)
         \<and> (\<forall>v e. form_get f ''total_questions'' = Some v \<and> py_int v = Inl e \<longrightarrow> requested_total f = 0)"
proof -
  let ?k = "effective_total (requested_total f) pool"
  let ?sel = "draw_sample draws pool (nat ?k)"
  from assms(2) have q: "questions \<noteq> []"
    using assms(1) by (auto simp: filter_domain_def)
  note r = start_session_result(1) [OF assms(2), of draws now "''standard''" "requested_total f"]
    start_session_result(2,3) [OF assms(2), of "requested_total f"]
  have new: "new_test draws now f questions
             = Started \<lparr> s_questions = ?sel, s_timestamp = now, s_mode = ''standard'' \<rparr>"
    using q assms r(1) by (simp add: new_test_def Let_def)
  have len: "int (length ?sel) = ?k"
    using r(2,3) by (simp add: draw_sample_length)
  have sub: "mset ?sel \<subseteq># mset pool" by (rule draw_sample_mset)
  have full: "mset ?sel = mset pool" if "?k = int (length pool)"
    using that draw_sample_all [of draws pool] by simp
  have big: "?k = int (length pool)" if "int (length pool) < requested_total f"
    using that r(2,3) by (simp add: effective_total_def)
  have zero: "?k = int (length pool)" if "requested_total f = 0"
    using that r(2,3) by (simp add: effective_total_def)
  have neg: "length ?sel = 1" if "requested_total f < 0"
  proof -
    from that have "?k = 1" by (simp add: effective_total_def)
    with len show ?thesis by simp
  qed
  have none: "requested_total f = 0" if "form_get f ''total_questions'' = None"
    using that by (simp add: requested_total_def)
  have bad: "requested_total f = 0" if "form_get f ''total_questions'' = Some v \<and> py_int v = Inl e" for v e
    using that by (simp add: requested_total_def)
  have k: "?k = max 1 (min (if requested_total f \<noteq> 0 then requested_total f
                            else int (length pool)) (int (length pool)))"
    by (simp only: effective_total_def)
  show ?thesis
  proof (intro exI [of _ ?sel] conjI impI allI)
    show "new_test draws now f questions
          = Started \<lparr> s_questions = ?sel, s_timestamp = now, s_mode = ''standard'' \<rparr>"
      by (rule new)
    show "int (length ?sel) = max 1 (min (if requested_total f \<noteq> 0 then requested_total f
                                          else int (length pool)) (int (length pool)))"
      using len k by (simp only:)
    show "mset ?sel \<subseteq># mset pool" by (rule sub)
    show "mset ?sel = mset pool" if "int (length pool) < requested_total f"
      using that by (intro full big)
    show "mset ?sel = mset pool" if "requested_total f = 0"
      using that by (intro full zero)
    show "length ?sel = 1" if "requested_total f < 0"
      using that by (rule neg)
    show "requested_total f = 0" if "form_get f ''total_questions'' = None"
      using that by (rule none)
    show "requested_total f = 0" if "form_get f ''total_questions'' = Some v \<and> py_int v = Inl e" for v e
      using that by (rule bad)
  qed
qed



theorem session_size_clamped_witness:
  "filter_domain (form_get (example_form ''5'' ''Security'') ''domain'')
     [example_question ''q0'' ''What?'', (example_question ''q1'' ''Which?'')\<lparr> q_domain := ''Law'' \<rparr>,
      example_question ''q2'' ''Why?'']
     = [example_question ''q0'' ''What?'', example_question ''q2'' ''Why?'']
   \<and> requested_total (example_form ''5'' ''Security'') = 5
   \<and> new_test [1] ''2024-01-01T00:00:00'' (example_form ''5'' ''Security'')
        [example_question ''q0'' ''What?'', (example_question ''q1'' ''Which?'')\<lparr> q_domain := ''Law'' \<rparr>,
         example_question ''q2'' ''Why?'']
       = Started \<lparr> s_questions = [example_question ''q2'' ''Why?'', example_question ''q0'' ''What?''],
                   s_timestamp = ''2024-01-01T00:00:00'', s_mode = ''standard'' \<rparr>"
proof -
  let ?f = "example_form ''5'' ''Security''"
  let ?qs = "[example_question ''q0'' ''What?'', (example_question ''q1'' ''Which?'')\<lparr> q_domain := ''Law'' \<rparr>,
              example_question ''q2'' ''Why?'']"
  let ?pool = "[example_question ''q0'' ''What?'', example_question ''q2'' ''Why?'']"
  have a: "filter_domain (form_get ?f ''domain'') ?qs = ?pool" by code_simp
  have b: "?pool \<noteq> []" by simp
  have c: "requested_total ?f = 5" by code_simp
  have d: "new_test [1] ''2024-01-01T00:00:00'' ?f ?qs
           = Started \<lparr> s_questions = [example_question ''q2'' ''Why?'', example_question ''q0'' ''What?''],
                       s_timestamp = ''2024-01-01T00:00:00'', s_mode = ''standard'' \<rparr>"
    by code_simp
  from session_size_clamped [OF a b, of "[1]" "''2024-01-01T00:00:00''"] a c d
  show ?thesis by simp
qed

text \<open>
  The claim as stated fails: with the requested count \<open>-5\<close> and a pool of three, the
  session has one question and not the whole pool.
\<close>

theorem session_size_counterexample:
  "requested_total (example_form ''-5'' []) = - 5
   \<and> filter_domain (form_get (example_form ''-5'' []) ''domain'')
        [example_question ''q0'' ''What?'', example_question ''q1'' ''Which?'',
         example_question ''q2'' ''Why?'']
       = [example_question ''q0'' ''What?'', example_question ''q1'' ''Which?'',
          example_question ''q2'' ''Why?'']
   \<and> new_test [] ''2024-01-01T00:00:00'' (example_form ''-5'' [])
        [example_question ''q0'' ''What?'', example_question ''q1'' ''Which?'',
         example_question ''q2'' ''Why?'']
       = Started \<lparr> s_questions = [example_question ''q0'' ''What?''],
                   s_timestamp = ''2024-01-01T00:00:00'', s_mode = ''standard'' \<rparr>"
  by code_simp

section \<open>The review pool\<close>

lemma wrong_lookup_keys: "fst ` set (wrong_lookup_of ws) = w_question_id ` set ws"
  by (simp add: wrong_lookup_of_def dict_of_keys image_image)

lemma wrong_lookup_contains: "contains (wrong_lookup_of ws) k \<longleftrightarrow> k \<in> w_question_id ` set ws"
  by (simp add: contains_iff wrong_lookup_keys)

text \<open>
  C9. The review pool is the stored questions, in their order, whose id is the
  question id of a wrong-answer record: a question is in the pool exactly when it is
  stored and some record has its id.
\<close>

theorem review_pool_exact:
  "review_questions questions wrong_answers
     = filter (\<lambda>q. q_id q \<in> w_question_id ` set wrong_answers) questions
   \<and> subseq (review_questions questions wrong_answers) questions
   \<and> (q \<in> set (review_questions questions wrong_answers)
        \<longleftrightarrow> q \<in> set questions \<and> (\<exists>w \<in> set wrong_answers. w_question_id w = q_id q))"
proof -
  have eq: "review_questions questions wrong_answers
            = filter (\<lambda>q. q_id q \<in> w_question_id ` set wrong_answers) questions"
    by (simp add: review_questions_def wrong_lookup_contains)
  moreover have "subseq (review_questions questions wrong_answers) questions"
    unfolding eq by (rule subseq_filter_left)
  moreover have "q \<in> set (review_questions questions wrong_answers)
        \<longleftrightarrow> q \<in> set questions \<and> (\<exists>w \<in> set wrong_answers. w_question_id w = q_id q)"
    unfolding eq by (auto simp: image_iff intro: sym)
  ultimately show ?thesis by blast
qed


section \<open>Wrong answers\<close>

lemma wrong_lookup_entries:
  "kv \<in> set (wrong_lookup_of ws) \<Longrightarrow> fst kv = w_question_id (snd kv) \<and> snd kv \<in> set ws"
  using dict_of_entries [of "map (\<lambda>item. (w_question_id item, item)) ws"]
  by (auto simp: wrong_lookup_of_def)

lemma wrong_lookup_distinct: "distinct (map fst (wrong_lookup_of ws))"
  by (simp add: wrong_lookup_of_def dict_of_distinct)

lemma wrong_lookup_of_values:
  assumes "distinct (map fst d)" and "\<forall>kv \<in> set d. fst kv = w_question_id (snd kv)"
  shows "wrong_lookup_of (map snd d) = d"
proof -
  have "map (\<lambda>item. (w_question_id item, item)) (map snd d) = d"
    using assms(2) by (rule keyed_values)
  then show ?thesis
    using assms(1) by (simp only: wrong_lookup_of_def dict_of_distinct_id)
qed

lemma wrong_lookup_Some:
  "map_of (wrong_lookup_of ws) k = Some r \<Longrightarrow> w_question_id r = k \<and> r \<in> set ws"
  using wrong_lookup_entries [of "(k, r)" ws] by (auto dest: map_of_SomeD)

lemma wrong_lookup_put:
  assumes "w_question_id item = k"
  shows "wrong_lookup_of (map snd (AList.update k item (wrong_lookup_of ws)))
         = AList.update k item (wrong_lookup_of ws)"
proof (rule wrong_lookup_of_values)
  show "distinct (map fst (AList.update k item (wrong_lookup_of ws)))"
    by (simp add: distinct_update wrong_lookup_distinct)
  show "\<forall>kv \<in> set (AList.update k item (wrong_lookup_of ws)). fst kv = w_question_id (snd kv)"
    using update_set_subset [of k item "wrong_lookup_of ws"] wrong_lookup_entries [of _ ws] assms
    by auto
qed

lemma map_of_filter_other:
  "other \<noteq> k \<Longrightarrow>
   map_of (map (\<lambda>item. (w_question_id item, item)) (filter (\<lambda>item. w_question_id item \<noteq> k) xs)) other
   = map_of (map (\<lambda>item. (w_question_id item, item)) xs) other"
  by (induction xs) auto

lemma wrong_lookup_filter_other:
  assumes "other \<noteq> k"
  shows "map_of (wrong_lookup_of (filter (\<lambda>item. w_question_id item \<noteq> k) ws)) other
         = map_of (wrong_lookup_of ws) other"
proof -
  have "rev (map (\<lambda>item. (w_question_id item, item)) (filter (\<lambda>item. w_question_id item \<noteq> k) ws))
        = map (\<lambda>item. (w_question_id item, item)) (filter (\<lambda>item. w_question_id item \<noteq> k) (rev ws))"
    by (simp add: rev_map rev_filter)
  then show ?thesis
    using map_of_filter_other [OF assms, of "rev ws"]
    by (simp add: wrong_lookup_of_def dict_of_map_of rev_map)
qed

text \<open>
  C5. In terms of the mapping from question ids to records that the code builds from
  the file. After a correct answer the id has no record, and the file is as it was
  when it had none. After an incorrect answer, a record that existed has its count
  one higher and the new time and answer; where none existed there is a new record
  with count 1 and the given answer. The records of the other ids are as they were.
\<close>

theorem mistake_lifecycle:
  "map_of (wrong_lookup_of (update_wrong_answers now ws qid sel True)) qid = None
   \<and> (map_of (wrong_lookup_of ws) qid = None \<longrightarrow> update_wrong_answers now ws qid sel True = ws)
   \<and> (map_of (wrong_lookup_of ws) qid = Some r \<longrightarrow>
        w_question_id r = qid
        \<and> map_of (wrong_lookup_of (update_wrong_answers now ws qid sel False)) qid
            = Some (r\<lparr> w_wrong_count := w_wrong_count r + 1, w_last_attempt := now,
                        w_last_answer := sel \<rparr>))
   \<and> (map_of (wrong_lookup_of ws) qid = None \<longrightarrow>
        map_of (wrong_lookup_of (update_wrong_answers now ws qid sel False)) qid
          = Some \<lparr> w_question_id = qid, w_wrong_count = 1, w_last_attempt = now,
                   w_last_answer = sel \<rparr>)
   \<and> (other \<noteq> qid \<longrightarrow>
        map_of (wrong_lookup_of (update_wrong_answers now ws qid sel is_correct)) other
          = map_of (wrong_lookup_of ws) other)"
proof (intro conjI impI)
  show "map_of (wrong_lookup_of (update_wrong_answers now ws qid sel True)) qid = None"
  proof (cases "contains (wrong_lookup_of ws) qid")
    case True
    have "qid \<notin> fst ` set (wrong_lookup_of (filter (\<lambda>item. w_question_id item \<noteq> qid) ws))"
      by (auto simp: wrong_lookup_keys)
    then have "map_of (wrong_lookup_of (filter (\<lambda>item. w_question_id item \<noteq> qid) ws)) qid = None"
      by (simp add: map_of_eq_None_iff)
    with True show ?thesis by (simp add: update_wrong_answers_def)
  next
    case False
    then show ?thesis by (simp add: update_wrong_answers_def contains_def)
  qed
next
  assume "map_of (wrong_lookup_of ws) qid = None"
  then show "update_wrong_answers now ws qid sel True = ws"
    by (simp add: update_wrong_answers_def contains_def)
next
  assume r: "map_of (wrong_lookup_of ws) qid = Some r"
  then show k: "w_question_id r = qid" by (simp add: wrong_lookup_Some)
  let ?r' = "r\<lparr> w_wrong_count := w_wrong_count r + 1, w_last_attempt := now, w_last_answer := sel \<rparr>"
  have "w_question_id ?r' = qid" using k by simp
  from wrong_lookup_put [OF this, of ws] r
  show "map_of (wrong_lookup_of (update_wrong_answers now ws qid sel False)) qid = Some ?r'"
    by (simp add: update_wrong_answers_def update_conv')
next
  assume n: "map_of (wrong_lookup_of ws) qid = None"
  let ?r' = "\<lparr> w_question_id = qid, w_wrong_count = 1, w_last_attempt = now, w_last_answer = sel \<rparr>"
  have "w_question_id ?r' = qid" by simp
  from wrong_lookup_put [OF this, of ws] n
  show "map_of (wrong_lookup_of (update_wrong_answers now ws qid sel False)) qid = Some ?r'"
    by (simp add: update_wrong_answers_def update_conv')
next
  assume o: "other \<noteq> qid"
  show "map_of (wrong_lookup_of (update_wrong_answers now ws qid sel is_correct)) other
        = map_of (wrong_lookup_of ws) other"
  proof (cases is_correct)
    case True
    then show ?thesis
      using wrong_lookup_filter_other [OF o, of ws]
      by (simp add: update_wrong_answers_def)
  next
    case False
    show ?thesis
    proof (cases "map_of (wrong_lookup_of ws) qid")
      case None
      let ?r' = "\<lparr> w_question_id = qid, w_wrong_count = 1, w_last_attempt = now, w_last_answer = sel \<rparr>"
      have "w_question_id ?r' = qid" by simp
      from wrong_lookup_put [OF this, of ws] None False o show ?thesis
        by (simp add: update_wrong_answers_def update_conv')
    next
      case (Some r)
      let ?r' = "r\<lparr> w_wrong_count := w_wrong_count r + 1, w_last_attempt := now, w_last_answer := sel \<rparr>"
      have "w_question_id ?r' = qid" using Some by (simp add: wrong_lookup_Some)
      from wrong_lookup_put [OF this, of ws] Some False o show ?thesis
        by (simp add: update_wrong_answers_def update_conv')
    qed
  qed
qed


theorem mistake_lifecycle_witness:
  "update_wrong_answers ''t1'' [] ''q1'' [0] False
     = [\<lparr> w_question_id = ''q1'', w_wrong_count = 1, w_last_attempt = ''t1'', w_last_answer = [0] \<rparr>]
   \<and> map_of (wrong_lookup_of
         [\<lparr> w_question_id = ''q1'', w_wrong_count = 1, w_last_attempt = ''t1'', w_last_answer = [0] \<rparr>]) ''q1''
       = Some \<lparr> w_question_id = ''q1'', w_wrong_count = 1, w_last_attempt = ''t1'', w_last_answer = [0] \<rparr>
   \<and> update_wrong_answers ''t2''
         [\<lparr> w_question_id = ''q1'', w_wrong_count = 1, w_last_attempt = ''t1'', w_last_answer = [0] \<rparr>]
         ''q1'' [2] False
       = [\<lparr> w_question_id = ''q1'', w_wrong_count = 2, w_last_attempt = ''t2'', w_last_answer = [2] \<rparr>]
   \<and> update_wrong_answers ''t3''
         [\<lparr> w_question_id = ''q1'', w_wrong_count = 2, w_last_attempt = ''t2'', w_last_answer = [2] \<rparr>]
         ''q1'' [1] True
       = []
   \<and> map_of (wrong_lookup_of
         (update_wrong_answers ''t2''
            [\<lparr> w_question_id = ''q1'', w_wrong_count = 1, w_last_attempt = ''t1'', w_last_answer = [0] \<rparr>]
            ''q1'' [2] False)) ''q1''
       = Some \<lparr> w_question_id = ''q1'', w_wrong_count = 2, w_last_attempt = ''t2'', w_last_answer = [2] \<rparr>"
proof -
  let ?r1 = "\<lparr> w_question_id = ''q1'', w_wrong_count = 1, w_last_attempt = ''t1'', w_last_answer = [0] \<rparr>"
  let ?r2 = "\<lparr> w_question_id = ''q1'', w_wrong_count = 2, w_last_attempt = ''t2'', w_last_answer = [2] \<rparr>"
  have a: "update_wrong_answers ''t1'' [] ''q1'' [0] False = [?r1]" by code_simp
  have b: "map_of (wrong_lookup_of [?r1]) ''q1'' = Some ?r1" by code_simp
  have c: "update_wrong_answers ''t2'' [?r1] ''q1'' [2] False = [?r2]" by code_simp
  have d: "update_wrong_answers ''t3'' [?r2] ''q1'' [1] True = []" by code_simp
  from mistake_lifecycle [of "''t2''" "[?r1]" "''q1''" "[2]" ?r1] b
  have "map_of (wrong_lookup_of (update_wrong_answers ''t2'' [?r1] ''q1'' [2] False)) ''q1''
        = Some ?r2"
    by simp
  with a b c d show ?thesis by simp
qed

section \<open>Scoring\<close>











section \<open>Normalizing twice, the text not blank\<close>

lemma py_strip_ends:
  "py_strip s = [] \<or> (\<not> py_isspace (hd (py_strip s)) \<and> \<not> py_isspace (last (py_strip s)))"
proof (cases "py_strip s = []")
  case True
  then show ?thesis by simp
next
  case False
  define u where "u = dropWhile py_isspace s"
  define v where "v = dropWhile py_isspace (rev u)"
  have t: "py_strip s = rev v" by (simp add: py_strip_def u_def v_def)
  with False have v: "v \<noteq> []" by simp
  then have hv: "\<not> py_isspace (hd v)" unfolding v_def by (rule hd_dropWhile)
  from v have u: "u \<noteq> []" by (auto simp: v_def)
  then have hu: "\<not> py_isspace (hd u)" unfolding u_def by (rule hd_dropWhile)
  have "rev u = takeWhile py_isspace (rev u) @ v" by (simp add: v_def)
  then have "u = rev v @ rev (takeWhile py_isspace (rev u))"
    by (metis rev_append rev_rev_ident)
  with v have "hd u = hd (rev v)" by (metis hd_append2 rev_is_Nil_conv)
  with hu hv v show ?thesis
    by (simp add: t last_rev)
qed

lemma py_strip_idem: "py_strip (py_strip s) = py_strip s"
proof (cases "py_strip s = []")
  case True
  have "py_strip [] = []" by (simp add: py_strip_def)
  with True show ?thesis by simp
next
  case False
  with py_strip_ends [of s]
  have h: "\<not> py_isspace (hd (py_strip s))" and l: "\<not> py_isspace (last (py_strip s))"
    by simp_all
  from h False have a: "dropWhile py_isspace (py_strip s) = py_strip s"
    by (simp add: dropWhile_eq_self_iff)
  from l False have "dropWhile py_isspace (rev (py_strip s)) = rev (py_strip s)"
    by (simp add: dropWhile_eq_self_iff hd_rev)
  then show ?thesis
    unfolding py_strip_def [of "py_strip s"] a by simp
qed

lemma fold_answer_step_ints:
  "list_all (\<lambda>i. in_range i choices) cs \<Longrightarrow>
   fold (answer_step choices) (map JInt cs) acc = acc @ cs"
  by (induction cs arbitrary: acc) (simp_all add: answer_step_def)

lemma normalize_correct_answers_ints:
  assumes "sorted_wrt (<) cs" and "list_all (\<lambda>i. in_range i choices) cs"
  shows "normalize_correct_answers (JList (map JInt cs)) choices = Inr cs"
proof -
  from assms(1) have "sorted cs" "distinct cs"
    by (simp_all add: strict_sorted_iff)
  then have "sort (remdups cs) = cs"
    by (simp add: distinct_remdups_id sort_key_id_if_sorted)
  with fold_answer_step_ints [OF assms(2), of "[]"] show ?thesis
    by (simp add: normalize_correct_answers_def)
qed

lemma domain_of_stripped: "domain_of d \<noteq> [] \<and> py_strip (domain_of d) = domain_of d"
proof -
  have g: "py_strip ''General'' = ''General''" by code_simp
  show ?thesis
    by (auto simp: domain_of_def Let_def g py_strip_idem)
qed

lemma comment_of_stripped: "py_strip (comment_of d) = comment_of d"
proof -
  have e: "py_strip [] = []" by (simp add: py_strip_def)
  show ?thesis
    by (auto simp: comment_of_def Let_def e py_strip_idem)
qed

lemma get_question_json:
  "get_default [(''id'', a), (''question'', b), (''choices'', c), (''correct_answers'', e),
        (''domain'', g), (''comment'', h)] k dflt =
     (if k = ''id'' then a else if k = ''question'' then b else if k = ''choices'' then c
      else if k = ''correct_answers'' then e else if k = ''domain'' then g
      else if k = ''comment'' then h else dflt)"
  by (simp add: get_default_def)

lemma domain_of_json:
  assumes "py_strip g = g" and "g \<noteq> []"
  shows "domain_of [(''id'', a), (''question'', b), (''choices'', c), (''correct_answers'', e),
                    (''domain'', JStr g), (''comment'', h)] = g"
  using assms by (simp add: domain_of_def get_question_json)

lemma comment_of_json:
  assumes "py_strip h = h"
  shows "comment_of [(''id'', a), (''question'', b), (''choices'', c), (''correct_answers'', e),
                     (''domain'', g), (''comment'', JStr h)] = h"
proof (cases "h = []")
  case True
  have "py_strip [] = []" by (simp add: py_strip_def)
  with True show ?thesis
    by (simp add: comment_of_def get_def get_question_json py_or_def)
next
  case False
  with assms show ?thesis
    by (simp add: comment_of_def get_def get_question_json py_or_def)
qed

text \<open>
  Apart from the blank text, normalizing the result of a normalization returns it
  unchanged. (An id is empty only for a float whose text is empty, which no float
  has.)
\<close>

lemma normalize_question_idempotent:
  assumes "normalize_question uuid5 raw = Inr q"
    and "q_question q \<noteq> []" and "q_id q \<noteq> []"
  shows "normalize_question uuid5 (question_json q) = Inr q"
proof -
  from normalize_question_fields [OF assms(1)] obtain d t where
    t: "q_question q = py_strip t"
    and dm: "q_domain q = domain_of d" and cm: "q_comment q = comment_of d"
    by blast
  have can: "canonical q" using assms(1) by (rule normalize_question_canonical)
  let ?d = "[(''id'', JStr (q_id q)), (''question'', JStr (q_question q)),
             (''choices'', JList (map JStr (q_choices q))),
             (''correct_answers'', JList (map JInt (q_correct_answers q))),
             (''domain'', JStr (q_domain q)), (''comment'', JStr (q_comment q))]"
  have qt: "question_text_of ?d = JStr (q_question q)"
    using assms(2) by (simp add: question_text_of_def get_def get_question_json py_or_def)
  have ch: "raw_choices_of ?d = JList (map JStr (q_choices q))"
    using can by (auto simp: raw_choices_of_def get_def get_question_json py_or_def canonical_def)
  have strs: "map py_str (map JStr (q_choices q)) = q_choices q"
    by (induction "q_choices q") (simp_all add: map_idI)
  have rc: "raw_correct_of ?d = JList (map JInt (q_correct_answers q))"
    using can by (simp add: raw_correct_of_def get_def get_question_json py_or_def canonical_def)
  have ca: "normalize_correct_answers (JList (map JInt (q_correct_answers q))) (q_choices q)
            = Inr (q_correct_answers q)"
    using can by (intro normalize_correct_answers_ints) (simp_all add: canonical_def)
  have "py_strip (q_domain q) = q_domain q" "q_domain q \<noteq> []"
    using domain_of_stripped [of d] by (simp_all add: dm)
  then have dom: "domain_of ?d = q_domain q"
    by (rule domain_of_json)
  have "py_strip (q_comment q) = q_comment q"
    using comment_of_stripped [of d] by (simp add: cm)
  then have com: "comment_of ?d = q_comment q"
    by (rule comment_of_json)
  have ident: "question_id_of ?d = JStr (q_id q)"
    using assms(3) by (simp add: question_id_of_def get_def get_question_json py_or_def)
  have st: "py_strip (q_question q) = q_question q"
    by (simp add: t py_strip_idem)
  have len: "\<not> length (q_choices q) < 2"
    using can by (simp add: canonical_def)
  show ?thesis
    unfolding question_json_def normalize_question_def
    using assms(2,3) can
    by (simp add: qt ch strs rc ca dom com ident st len canonical_def del: map_map)
qed

end
